theory Spec2Isabelle
  imports Main "HOL-Library.Sublist"
begin

section \<open>Strings, truthiness and number formatting\<close>

text \<open>
  A JavaScript string is a sequence of code units. Here a \<open>string\<close> is a list of code
  units of the range U+0000 to U+00FF, one \<open>char\<close> each, which covers every literal of
  \<open>ChatInterface.tsx\<close> (the accented letters of its Portuguese texts are written
  \<open>CHR 0xE3\<close> and so on).

  \<open>String.prototype.trim\<close> strips white space and line terminators from both ends. In
  this range they are TAB, LF, VT, FF, CR, SP and NBSP.
\<close>

definition isWhiteSpace :: "char \<Rightarrow> bool" where
  "isWhiteSpace c = (of_char c \<in> {9, 10, 11, 12, 13, 32, 160 :: nat})"

definition trim :: "string \<Rightarrow> string" where
  "trim s = rev (dropWhile isWhiteSpace (rev (dropWhile isWhiteSpace s)))"

text \<open>
  \<open>Boolean(x)\<close>, \<open>!x\<close> and \<open>x && ...\<close> on a value of type \<open>string | undefined\<close>:
  \<open>undefined\<close> (here \<open>None\<close>) and the empty string are falsy, every other string is
  truthy.
\<close>

fun Boolean :: "string option \<Rightarrow> bool" where
  "Boolean None = False"
| "Boolean (Some v) = (v \<noteq> [])"

text \<open>
  \<open>toLowerCase\<close> on the code units of this range: A to Z, and U+00C0 to U+00DE without
  the multiplication sign U+00D7, move up by 32.
\<close>

definition lowerUnit :: "char \<Rightarrow> char" where
  "lowerUnit c =
     (let n = (of_char c :: nat)
      in if (65 \<le> n \<and> n \<le> 90) \<or> (192 \<le> n \<and> n \<le> 222 \<and> n \<noteq> 215)
         then char_of (n + 32) else c)"

definition toLowerCase :: "string \<Rightarrow> string" where
  "toLowerCase s = map lowerUnit s"

text \<open>\<open>s.split(/[...]/)\<close>: cut at every separator, keeping empty pieces.\<close>

fun split :: "(char \<Rightarrow> bool) \<Rightarrow> string \<Rightarrow> string list" where
  "split sep [] = [[]]"
| "split sep (c # cs) =
     (if sep c then [] # split sep cs
      else (case split sep cs of
              [] \<Rightarrow> [[c]]
            | part # parts \<Rightarrow> (c # part) # parts))"

text \<open>
  The template literals \<open>`user-${Date.now()}`\<close> format a number. \<open>Date.now()\<close> is an
  integer number of milliseconds (far below \<open>1e21\<close> in magnitude), which
  \<open>Number.prototype.toString\<close> writes in decimal digits, with a minus sign in front when
  negative.
\<close>

definition digit_char :: "nat \<Rightarrow> char" where
  "digit_char d = char_of (48 + d)"

fun decimal :: "nat \<Rightarrow> string" where
  "decimal n = (if n < 10 then [digit_char n] else decimal (n div 10) @ [digit_char (n mod 10)])"

declare decimal.simps [simp del]

definition Number_toString :: "int \<Rightarrow> string" where
  "Number_toString t = (if t < 0 then CHR ''-'' # decimal (nat (- t)) else decimal (nat t))"

section \<open>Data model of \<open>ChatInterface.tsx\<close>\<close>

text \<open>
  \<open>StyleProfile\<close> is imported from \<open>../lib/visualEngine\<close>; the component reads its
  \<open>id\<close> and \<open>label\<close> only.
\<close>

record StyleProfile =
  profile_id :: string
  label :: string

datatype Role = User | Assistant

record Meta =
  meta_styleId :: string
  meta_iteration :: nat
  baseImageUsed :: "bool option"

record ChatMessage =
  msg_id :: string
  role :: Role
  msg_text :: string
  msg_image :: "string option"
  createdAt :: int
  meta :: "Meta option"

text \<open>
  The component imports \<open>../lib/visualEngine\<close> and fixes nothing about it. Its catalog
  \<open>listStyleProfiles()\<close> and its selector \<open>pickStyleProfile\<close> are parameters of the
  model; how a call of \<open>renderGeminiCanvas\<close> settles is an input of the continuation of
  \<open>handleSend\<close>.
\<close>

record visualEngine =
  listStyleProfiles :: "StyleProfile list"
  pickStyleProfile :: "string \<Rightarrow> StyleProfile"

datatype Settlement = Fulfilled string | Rejected

definition profileOptions :: "visualEngine \<Rightarrow> StyleProfile list" where
  "profileOptions ve = listStyleProfiles ve"

text \<open>
  \<open>profileOptions.find((profile) => profile.id === id) ?? profileOptions[0]\<close>.
  \<open>None\<close> is the \<open>undefined\<close> that \<open>profileOptions[0]\<close> gives on an empty catalog.
\<close>

definition resolveProfile :: "visualEngine \<Rightarrow> string \<Rightarrow> StyleProfile option" where
  "resolveProfile ve i =
     (case find (\<lambda>profile. profile_id profile = i) (profileOptions ve) of
        Some profile \<Rightarrow> Some profile
      | None \<Rightarrow> (case profileOptions ve of [] \<Rightarrow> None | p # _ \<Rightarrow> Some p))"

section \<open>Captions\<close>

definition summarizePrompt :: "string \<Rightarrow> string" where
  "summarizePrompt prompt =
     (let keywords =
            take 2 (filter (\<lambda>part. part \<noteq> [])
              (map trim (split (\<lambda>c. c \<in> set '',.;'' \<or> c = CHR 0x0A) prompt)))
      in case keywords of
           [] \<Rightarrow> ''os conceitos principais do pedido''
         | [k0] \<Rightarrow> toLowerCase k0
         | k0 # k1 # _ \<Rightarrow> toLowerCase k0 @ '' e '' @ toLowerCase k1)"

definition buildAssistantCaption :: "string \<Rightarrow> StyleProfile \<Rightarrow> bool \<Rightarrow> string" where
  "buildAssistantCaption prompt profile usedBase =
     (let summary = summarizePrompt prompt;
          profileTone = label profile
      in if usedBase
         then ''Transformei a base fornecida seguindo o estilo '' @ profileTone
              @ ''. Destaquei '' @ summary @ '' e preservei a identidade estabelecida.''
         else ''Modelei uma composi'' @ [CHR 0xE7, CHR 0xE3] @ ''o original em '' @ profileTone
              @ '', enfatizando '' @ summary @ ''. Podemos iterar com novos ajustes.'')"

definition apologyText :: string where
  "apologyText =
     ''N'' @ [CHR 0xE3] @ ''o consegui gerar a composi'' @ [CHR 0xE7, CHR 0xE3]
     @ ''o agora. Tente novamente com outro pedido ou recarregue a p'' @ [CHR 0xE1] @ ''gina.''"

definition welcomeText :: string where
  "welcomeText =
     ''Oi! Sou o seu atelier visual estilo Gemini. Envie uma ideia e eu transformo em uma arte ''
     @ ''consistente. Voc'' @ [CHR 0xEA] @ '' tamb'' @ [CHR 0xE9]
     @ ''m pode carregar uma imagem para transform'' @ [CHR 0xE1] @ ''-la.''"

definition initialInput :: string where
  "initialInput =
     ''Quero um p'' @ [CHR 0xF4]
     @ ''ster futurista de uma cidade submersa iluminada por neon.''"

section \<open>The state of the component\<close>

text \<open>
  \<open>handleSend\<close> is an \<open>async\<close> function with one \<open>await\<close> (line 111). Between the call
  and the settlement of \<open>renderGeminiCanvas\<close> its local constants live on in the suspended
  continuation: \<open>Pending\<close> holds them. The other fields of \<open>ChatState\<close> are the
  \<open>useState\<close> cells of the component.

  A handler runs on the cells of the latest render: the component renders again after
  every event, and the dependency list of each \<open>useCallback\<close> names every cell its
  handler reads. So a handler is a function from the state before the event to the state
  after it; the continuation of \<open>handleSend\<close> reads its captured constants only and
  writes through \<open>setMessages((prev) => ...)\<close> and \<open>setIsBusy(false)\<close>.
\<close>

record Pending =
  p_prompt :: string
  p_styleProfile :: "StyleProfile option"
  p_nextIteration :: nat
  p_baseImageData :: "string option"

record ChatState =
  messages :: "ChatMessage list"
  input :: string
  isBusy :: bool
  styleId :: string
  iteration :: nat
  baseImageData :: "string option"
  previewBaseName :: "string option"
  pending :: "Pending option"

text \<open>
  The first render reads \<open>profileOptions[0].id\<close> twice (lines 42 and 49), which throws
  on an empty catalog: then there is no component, \<open>None\<close>. \<open>now\<close> is the value of
  \<open>Date.now()\<close> on line 40.
\<close>

definition initialState :: "visualEngine \<Rightarrow> int \<Rightarrow> ChatState option" where
  "initialState ve now =
     (case profileOptions ve of
        [] \<Rightarrow> None
      | p0 # _ \<Rightarrow>
          Some \<lparr> messages =
                   [\<lparr> msg_id = ''init-assistant'', role = Assistant, msg_text = welcomeText,
                      msg_image = None, createdAt = now,
                      meta = Some \<lparr> meta_styleId = profile_id p0, meta_iteration = 0,
                                    baseImageUsed = None \<rparr> \<rparr>],
                 input = initialInput, isBusy = False, styleId = profile_id p0,
                 iteration = 0, baseImageData = None, previewBaseName = None,
                 pending = None \<rparr>)"

section \<open>The handlers\<close>

text \<open>
  \<open>handleSend\<close> up to its \<open>await\<close>, lines 88 to 111. \<open>now1\<close> and \<open>now2\<close> are the two
  readings of \<open>Date.now()\<close> on lines 99 and 102.
\<close>

definition handleSend :: "visualEngine \<Rightarrow> int \<Rightarrow> int \<Rightarrow> ChatState \<Rightarrow> ChatState" where
  "handleSend ve now1 now2 s =
     (let prompt = trim (input s)
      in if prompt = [] \<or> isBusy s then s
         else
           let firstProfile = pickStyleProfile ve (prompt @ styleId s);
               userMessage = \<lparr> msg_id = ''user-'' @ Number_toString now1, role = User,
                               msg_text = prompt, msg_image = None, createdAt = now2,
                               meta = None \<rparr>;
               styleProfile = resolveProfile ve
                                (if styleId s \<noteq> [] then styleId s else profile_id firstProfile);
               nextIteration = iteration s + 1
           in s \<lparr> isBusy := True,
                  input := [],
                  styleId := (if styleId s = [] then profile_id firstProfile else styleId s),
                  messages := messages s @ [userMessage],
                  iteration := nextIteration,
                  pending := Some \<lparr> p_prompt = prompt, p_styleProfile = styleProfile,
                                     p_nextIteration = nextIteration,
                                     p_baseImageData = baseImageData s \<rparr> \<rparr>)"

text \<open>
  The rest of \<open>handleSend\<close>, lines 111 to 140, run when \<open>renderGeminiCanvas\<close> settles;
  \<open>now1\<close> and \<open>now2\<close> are the readings of \<open>Date.now()\<close> for \<open>id\<close> and \<open>createdAt\<close>.
  With an \<open>undefined\<close> profile both \<open>profile.label\<close> in the \<open>try\<close> block and
  \<open>styleProfile.id\<close> in the \<open>catch\<close> block throw, so that only \<open>finally\<close> takes effect.
\<close>

definition handleSend_settled :: "Settlement \<Rightarrow> int \<Rightarrow> int \<Rightarrow> ChatState \<Rightarrow> ChatState" where
  "handleSend_settled outcome now1 now2 s =
     (case pending s of
        None \<Rightarrow> s
      | Some k \<Rightarrow>
          (case p_styleProfile k of
             None \<Rightarrow> s \<lparr> isBusy := False, pending := None \<rparr>
           | Some styleProfile \<Rightarrow>
               (case outcome of
                  Fulfilled img \<Rightarrow>
                    let assistantText = buildAssistantCaption (p_prompt k) styleProfile
                                          (Boolean (p_baseImageData k));
                        assistantMessage =
                          \<lparr> msg_id = ''assistant-'' @ Number_toString now1, role = Assistant,
                            msg_text = assistantText, msg_image = Some img, createdAt = now2,
                            meta = Some \<lparr> meta_styleId = profile_id styleProfile,
                                          meta_iteration = p_nextIteration k,
                                          baseImageUsed = Some (Boolean (p_baseImageData k)) \<rparr> \<rparr>
                    in s \<lparr> messages := messages s @ [assistantMessage],
                           isBusy := False, pending := None \<rparr>
                | Rejected \<Rightarrow>
                    let fallbackMessage =
                          \<lparr> msg_id = ''assistant-error-'' @ Number_toString now1,
                            role = Assistant, msg_text = apologyText, msg_image = None,
                            createdAt = now2,
                            meta = Some \<lparr> meta_styleId = profile_id styleProfile,
                                          meta_iteration = p_nextIteration k,
                                          baseImageUsed = None \<rparr> \<rparr>
                    in s \<lparr> messages := messages s @ [fallbackMessage],
                           isBusy := False, pending := None \<rparr>)))"

text \<open>The \<open>onload\<close> callback of \<open>handleFileChange\<close>, lines 73 to 79.\<close>

definition handleFileLoaded :: "string \<Rightarrow> string \<Rightarrow> ChatState \<Rightarrow> ChatState" where
  "handleFileLoaded result name s =
     s \<lparr> baseImageData := Some result, previewBaseName := Some name \<rparr>"

definition handleAdoptBase :: "string option \<Rightarrow> ChatState \<Rightarrow> ChatState" where
  "handleAdoptBase img s =
     (if \<not> Boolean img then s
      else s \<lparr> baseImageData := img, previewBaseName := Some ''Canvas anterior'' \<rparr>)"

definition handleClearBase :: "ChatState \<Rightarrow> ChatState" where
  "handleClearBase s = s \<lparr> baseImageData := None, previewBaseName := None \<rparr>"

section \<open>Events and runs\<close>

text \<open>
  What can happen to the component: the text area changes (\<open>setInput\<close>), a submission,
  the settlement of the generation in flight, a choice in the style selector
  (\<open>setStyleId\<close>), a loaded file, the adoption of a message's image, the clearing of the
  base image.
\<close>

datatype Event =
    SetInput string
  | Send int int
  | Settle Settlement int int
  | SelectStyle string
  | FileLoaded string string
  | AdoptBase "string option"
  | ClearBase

fun step :: "visualEngine \<Rightarrow> ChatState \<Rightarrow> Event \<Rightarrow> ChatState" where
  "step ve s (SetInput v) = s \<lparr> input := v \<rparr>"
| "step ve s (Send now1 now2) = handleSend ve now1 now2 s"
| "step ve s (Settle outcome now1 now2) = handleSend_settled outcome now1 now2 s"
| "step ve s (SelectStyle v) = s \<lparr> styleId := v \<rparr>"
| "step ve s (FileLoaded result name) = handleFileLoaded result name s"
| "step ve s (AdoptBase img) = handleAdoptBase img s"
| "step ve s ClearBase = handleClearBase s"

definition run :: "visualEngine \<Rightarrow> ChatState \<Rightarrow> Event list \<Rightarrow> ChatState" where
  "run ve s evs = foldl (step ve) s evs"

fun isSettle :: "Event \<Rightarrow> bool" where
  "isSettle (Settle _ _ _) = True"
| "isSettle _ = False"

fun isSelectStyle :: "Event \<Rightarrow> bool" where
  "isSelectStyle (SelectStyle _) = True"
| "isSelectStyle _ = False"

fun changesBase :: "Event \<Rightarrow> bool" where
  "changesBase (FileLoaded _ _) = True"
| "changesBase (AdoptBase _) = True"
| "changesBase ClearBase = True"
| "changesBase _ = False"

text \<open>A submission is accepted when \<open>handleSend\<close> gets past its guard on line 89.\<close>

definition accepted :: "ChatState \<Rightarrow> bool" where
  "accepted s = (trim (input s) \<noteq> [] \<and> \<not> isBusy s)"

section \<open>A sample engine\<close>

text \<open>
  A two-entry catalog and a selector that reduces a content hash of the seed (the sum of
  its code units) modulo the catalog size, to run the handlers on concrete inputs.
\<close>

definition sampleCatalog :: "StyleProfile list" where
  "sampleCatalog =
     [\<lparr> profile_id = ''aurora'', label = ''Aurora'' \<rparr>,
      \<lparr> profile_id = ''noir'', label = ''Noir'' \<rparr>]"

definition sampleEngine :: visualEngine where
  "sampleEngine =
     \<lparr> listStyleProfiles = sampleCatalog,
       pickStyleProfile =
         (\<lambda>seed. if even (sum_list (map of_char seed) :: nat)
                  then \<lparr> profile_id = ''aurora'', label = ''Aurora'' \<rparr>
                  else \<lparr> profile_id = ''noir'', label = ''Noir'' \<rparr>) \<rparr>"

definition sampleState :: ChatState where
  "sampleState =
     \<lparr> messages =
         [\<lparr> msg_id = ''init-assistant'', role = Assistant, msg_text = welcomeText,
            msg_image = None, createdAt = 1000,
            meta = Some \<lparr> meta_styleId = ''aurora'', meta_iteration = 0,
                          baseImageUsed = None \<rparr> \<rparr>],
       input = ''neon city'', isBusy = False, styleId = ''aurora'',
       iteration = 0, baseImageData = None, previewBaseName = None,
       pending = None \<rparr>"

section \<open>Observations on runs\<close>

fun isSend :: "Event \<Rightarrow> bool" where
  "isSend (Send _ _) = True"
| "isSend _ = False"

fun iterationsOf :: "ChatMessage list \<Rightarrow> nat list" where
  "iterationsOf [] = []"
| "iterationsOf (m # ms) =
     (case meta m of None \<Rightarrow> iterationsOf ms | Some x \<Rightarrow> meta_iteration x # iterationsOf ms)"

definition wellFormed :: "ChatState \<Rightarrow> bool" where
  "wellFormed s =
     ((isBusy s \<longleftrightarrow> pending s \<noteq> None)
      \<and> (\<forall>k. pending s = Some k \<longrightarrow> p_nextIteration k = iteration s)
      \<and> sorted (iterationsOf (messages s))
      \<and> (\<forall>i \<in> set (iterationsOf (messages s)). i \<le> iteration s))"

text \<open>
  The three places where \<open>handleSend\<close> mints a message id from the clock (lines 99,
  114 and 128), the id each one builds, and the clock readings that a run turns into
  ids: an event counts when it makes the log grow.
\<close>

datatype MessageKind = UserMessage | AssistantMessage | FallbackMessage

fun idOf :: "MessageKind \<times> int \<Rightarrow> string" where
  "idOf (UserMessage, now) = ''user-'' @ Number_toString now"
| "idOf (AssistantMessage, now) = ''assistant-'' @ Number_toString now"
| "idOf (FallbackMessage, now) = ''assistant-error-'' @ Number_toString now"

fun minted :: "Event \<Rightarrow> (MessageKind \<times> int) list" where
  "minted (Send now1 _) = [(UserMessage, now1)]"
| "minted (Settle (Fulfilled _) now1 _) = [(AssistantMessage, now1)]"
| "minted (Settle Rejected now1 _) = [(FallbackMessage, now1)]"
| "minted _ = []"

fun idReadings :: "visualEngine \<Rightarrow> ChatState \<Rightarrow> Event list \<Rightarrow> (MessageKind \<times> int) list" where
  "idReadings ve s [] = []"
| "idReadings ve s (e # evs) =
     (if messages (step ve s e) = messages s then [] else minted e)
     @ idReadings ve (step ve s e) evs"

section \<open>Profile lookup\<close>

lemma find_first_match:
  "find P xs = Some x \<Longrightarrow> x \<in> set xs \<and> P x"
  by (induction xs) (auto split: if_splits)

lemma find_no_match:
  "find P xs = None \<longleftrightarrow> (\<forall>x \<in> set xs. \<not> P x)"
  by (induction xs) auto

text \<open>
  C8. On a non-empty catalog \<open>resolveProfile\<close> returns, for every id, a profile of the
  catalog: one whose id is the argument (the first such) when the catalog has one, and the
  first entry of the catalog otherwise. It never yields \<open>undefined\<close>.
\<close>

theorem resolveProfile_total:
  assumes "profileOptions ve \<noteq> []"
  shows "\<exists>p. resolveProfile ve i = Some p \<and> p \<in> set (profileOptions ve)
           \<and> (if \<exists>q \<in> set (profileOptions ve). profile_id q = i
               then profile_id p = i
                    \<and> find (\<lambda>q. profile_id q = i) (profileOptions ve) = Some p
               else p = hd (profileOptions ve))"
proof (cases "find (\<lambda>q. profile_id q = i) (profileOptions ve)")
  case None
  then have no: "\<forall>q \<in> set (profileOptions ve). profile_id q \<noteq> i"
    by (simp add: find_no_match)
  from assms obtain p0 rest where cat: "profileOptions ve = p0 # rest"
    by (cases "profileOptions ve") auto
  have "resolveProfile ve i = Some p0"
    using None cat by (simp add: resolveProfile_def)
  with no cat show ?thesis by auto
next
  case (Some p)
  then have "p \<in> set (profileOptions ve) \<and> profile_id p = i"
    by (rule find_first_match)
  moreover have "resolveProfile ve i = Some p"
    using Some by (simp add: resolveProfile_def)
  ultimately show ?thesis using Some by auto
qed

theorem resolveProfile_total_witness:
  "resolveProfile sampleEngine ''noir'' = Some \<lparr> profile_id = ''noir'', label = ''Noir'' \<rparr>
   \<and> resolveProfile sampleEngine ''stale'' = Some \<lparr> profile_id = ''aurora'', label = ''Aurora'' \<rparr>
   \<and> (\<exists>p. resolveProfile sampleEngine ''stale'' = Some p
          \<and> p \<in> set (profileOptions sampleEngine))"
proof -
  have ne: "profileOptions sampleEngine \<noteq> []"
    by (simp add: profileOptions_def sampleEngine_def sampleCatalog_def)
  have "\<exists>p. resolveProfile sampleEngine ''stale'' = Some p
          \<and> p \<in> set (profileOptions sampleEngine)"
    using resolveProfile_total [OF ne, of "''stale''"] by blast
  moreover have "resolveProfile sampleEngine ''noir''
                   = Some \<lparr> profile_id = ''noir'', label = ''Noir'' \<rparr>"
    by (simp add: resolveProfile_def profileOptions_def sampleEngine_def sampleCatalog_def)
  moreover have "resolveProfile sampleEngine ''stale''
                   = Some \<lparr> profile_id = ''aurora'', label = ''Aurora'' \<rparr>"
    by (simp add: resolveProfile_def profileOptions_def sampleEngine_def sampleCatalog_def)
  ultimately show ?thesis by blast
qed

section \<open>Runs and the invariant of the component\<close>


lemma run_Nil [simp]: "run ve s [] = s"
  by (simp add: run_def)

lemma run_Cons [simp]: "run ve s (e # evs) = run ve (step ve s e) evs"
  by (simp add: run_def)

lemma run_append: "run ve s (evs @ evs') = run ve (run ve s evs) evs'"
  by (simp add: run_def)

lemma iterationsOf_append:
  "iterationsOf (xs @ ys) = iterationsOf xs @ iterationsOf ys"
  by (induction xs) (auto split: option.splits)

lemma step_busy:
  assumes "isBusy s" "\<not> isSettle e"
  shows "isBusy (step ve s e) \<and> pending (step ve s e) = pending s
         \<and> iteration (step ve s e) = iteration s \<and> messages (step ve s e) = messages s"
  using assms
  by (cases e) (simp_all add: handleSend_def handleFileLoaded_def handleAdoptBase_def
      handleClearBase_def Let_def)

lemma run_busy:
  assumes "isBusy s" "\<forall>e \<in> set evs. \<not> isSettle e"
  shows "isBusy (run ve s evs) \<and> pending (run ve s evs) = pending s
         \<and> iteration (run ve s evs) = iteration s \<and> messages (run ve s evs) = messages s"
  using assms
proof (induction evs arbitrary: s)
  case Nil
  then show ?case by simp
next
  case (Cons e evs)
  then have "isBusy (step ve s e) \<and> pending (step ve s e) = pending s
         \<and> iteration (step ve s e) = iteration s \<and> messages (step ve s e) = messages s"
    using step_busy [of s e ve] by simp
  moreover from Cons.prems have "\<forall>e \<in> set evs. \<not> isSettle e" by simp
  ultimately show ?case using Cons.IH [of "step ve s e"] by simp
qed

lemma wellFormed_initial:
  "initialState ve now = Some s0 \<Longrightarrow> wellFormed s0"
  by (auto simp: initialState_def wellFormed_def split: list.splits)

lemma wellFormed_handleSend:
  "wellFormed s \<Longrightarrow> wellFormed (handleSend ve now1 now2 s)"
  by (auto simp: wellFormed_def handleSend_def Let_def iterationsOf_append)

lemma wellFormed_settled:
  "wellFormed s \<Longrightarrow> wellFormed (handleSend_settled outcome now1 now2 s)"
  by (auto simp: wellFormed_def handleSend_settled_def Let_def iterationsOf_append sorted_append
      split: option.splits Settlement.splits)

lemma wellFormed_step:
  "wellFormed s \<Longrightarrow> wellFormed (step ve s e)"
proof (cases e)
  case (Send n1 n2)
  assume "wellFormed s"
  then show ?thesis using Send by (simp add: wellFormed_handleSend)
next
  case (Settle outcome n1 n2)
  assume "wellFormed s"
  then show ?thesis using Settle by (simp add: wellFormed_settled)
qed (simp_all add: wellFormed_def handleFileLoaded_def handleAdoptBase_def handleClearBase_def)

lemma wellFormed_run:
  "wellFormed s \<Longrightarrow> wellFormed (run ve s evs)"
  by (induction evs arbitrary: s) (simp_all add: wellFormed_step)

lemma resolveProfile_Some:
  "profileOptions ve \<noteq> [] \<Longrightarrow> \<exists>p. resolveProfile ve i = Some p"
  by (cases "profileOptions ve") (auto simp: resolveProfile_def split: option.splits)

lemma initialState_catalog:
  "initialState ve now = Some s0 \<Longrightarrow> profileOptions ve \<noteq> []"
  by (auto simp: initialState_def)

lemma handleSend_accepted:
  assumes "accepted s"
  shows "handleSend ve now1 now2 s =
           s \<lparr> isBusy := True, input := [],
               styleId := (if styleId s = []
                           then profile_id (pickStyleProfile ve (trim (input s) @ styleId s))
                           else styleId s),
               messages := messages s @
                 [\<lparr> msg_id = ''user-'' @ Number_toString now1, role = User,
                    msg_text = trim (input s), msg_image = None, createdAt = now2,
                    meta = None \<rparr>],
               iteration := iteration s + 1,
               pending := Some \<lparr> p_prompt = trim (input s),
                   p_styleProfile = resolveProfile ve
                     (if styleId s \<noteq> [] then styleId s
                      else profile_id (pickStyleProfile ve (trim (input s) @ styleId s))),
                   p_nextIteration = iteration s + 1,
                   p_baseImageData = baseImageData s \<rparr> \<rparr>"
  using assms by (simp add: handleSend_def accepted_def Let_def)

lemma handleSend_not_accepted:
  "\<not> accepted s \<Longrightarrow> handleSend ve now1 now2 s = s"
  by (auto simp: handleSend_def accepted_def Let_def)

lemma settled_Fulfilled:
  assumes "pending s = Some k" "p_styleProfile k = Some prof"
  shows "handleSend_settled (Fulfilled img) now1 now2 s =
           s \<lparr> messages := messages s @
                 [\<lparr> msg_id = ''assistant-'' @ Number_toString now1, role = Assistant,
                    msg_text = buildAssistantCaption (p_prompt k) prof
                                 (Boolean (p_baseImageData k)),
                    msg_image = Some img, createdAt = now2,
                    meta = Some \<lparr> meta_styleId = profile_id prof,
                                  meta_iteration = p_nextIteration k,
                                  baseImageUsed = Some (Boolean (p_baseImageData k)) \<rparr> \<rparr>],
               isBusy := False, pending := None \<rparr>"
  using assms by (simp add: handleSend_settled_def Let_def)

lemma settled_Rejected:
  assumes "pending s = Some k" "p_styleProfile k = Some prof"
  shows "handleSend_settled Rejected now1 now2 s =
           s \<lparr> messages := messages s @
                 [\<lparr> msg_id = ''assistant-error-'' @ Number_toString now1, role = Assistant,
                    msg_text = apologyText, msg_image = None, createdAt = now2,
                    meta = Some \<lparr> meta_styleId = profile_id prof,
                                  meta_iteration = p_nextIteration k,
                                  baseImageUsed = None \<rparr> \<rparr>],
               isBusy := False, pending := None \<rparr>"
  using assms by (simp add: handleSend_settled_def Let_def)

text \<open>
  An accepted submission on a non-empty catalog, followed by any events but a settlement:
  the continuation is still suspended, with the constants it captured at the submission.
\<close>

lemma attempt_in_flight:
  assumes ne: "profileOptions ve \<noteq> []" and acc: "accepted s"
    and ns: "\<forall>e \<in> set evs. \<not> isSettle e"
  shows "\<exists>prof. resolveProfile ve
                   (if styleId s \<noteq> [] then styleId s
                    else profile_id (pickStyleProfile ve (trim (input s) @ styleId s)))
                 = Some prof
           \<and> pending (run ve (handleSend ve now1 now2 s) evs)
               = Some \<lparr> p_prompt = trim (input s), p_styleProfile = Some prof,
                        p_nextIteration = iteration s + 1,
                        p_baseImageData = baseImageData s \<rparr>
           \<and> iteration (run ve (handleSend ve now1 now2 s) evs) = iteration s + 1
           \<and> messages (run ve (handleSend ve now1 now2 s) evs)
               = messages (handleSend ve now1 now2 s)
           \<and> isBusy (run ve (handleSend ve now1 now2 s) evs)"
proof -
  let ?i = "if styleId s \<noteq> [] then styleId s
            else profile_id (pickStyleProfile ve (trim (input s) @ styleId s))"
  let ?s1 = "handleSend ve now1 now2 s"
  from ne obtain prof where prof: "resolveProfile ve ?i = Some prof"
    using resolveProfile_Some by blast
  have busy: "isBusy ?s1"
    by (simp add: handleSend_accepted [OF acc])
  have pend: "pending ?s1 = Some \<lparr> p_prompt = trim (input s), p_styleProfile = Some prof,
                        p_nextIteration = iteration s + 1,
                        p_baseImageData = baseImageData s \<rparr>"
    using prof by (simp add: handleSend_accepted [OF acc])
  have it: "iteration ?s1 = iteration s + 1"
    by (simp add: handleSend_accepted [OF acc])
  from run_busy [OF busy ns, of ve] pend it prof show ?thesis
    by simp
qed

section \<open>Facts about the sample engine\<close>

lemma sample_catalog: "profileOptions sampleEngine \<noteq> []"
  by (simp add: profileOptions_def sampleEngine_def sampleCatalog_def)

lemma sample_initial:
  "initialState sampleEngine 1000 = Some (sampleState \<lparr> input := initialInput \<rparr>)"
  by (simp add: initialState_def profileOptions_def sampleEngine_def sampleCatalog_def
      sampleState_def)

lemma sample_typed:
  "run sampleEngine (sampleState \<lparr> input := initialInput \<rparr>) [SetInput ''neon city'']
     = sampleState"
  by (simp add: sampleState_def)

lemma sample_accepted: "accepted sampleState"
  by (simp add: accepted_def sampleState_def trim_def isWhiteSpace_def)

lemma sample_trim: "trim (input sampleState) = ''neon city''"
  by (simp add: sampleState_def trim_def isWhiteSpace_def)

section \<open>Rejected submissions\<close>

text \<open>
  C5. A submission whose input is empty after trimming, or one made while a generation is
  in flight, returns on line 89: the state after \<open>handleSend\<close> is the state before it,
  in every field (messages, iteration counter, busy flag, style, base image and its label).
\<close>

theorem handleSend_rejected:
  "trim (input s) = [] \<or> isBusy s \<Longrightarrow> handleSend ve now1 now2 s = s"
  by (auto simp: handleSend_def Let_def)

theorem handleSend_rejected_witness:
  "trim (input (sampleState \<lparr> input := [CHR '' '', CHR 0x09, CHR 0xA0, CHR 0x0A] \<rparr>)) = []
   \<and> handleSend sampleEngine 5 6
        (sampleState \<lparr> input := [CHR '' '', CHR 0x09, CHR 0xA0, CHR 0x0A] \<rparr>)
       = sampleState \<lparr> input := [CHR '' '', CHR 0x09, CHR 0xA0, CHR 0x0A] \<rparr>
   \<and> isBusy (handleSend sampleEngine 5 6 sampleState \<lparr> input := ''second'' \<rparr>)
   \<and> handleSend sampleEngine 7 8 (handleSend sampleEngine 5 6 sampleState \<lparr> input := ''second'' \<rparr>)
       = handleSend sampleEngine 5 6 sampleState \<lparr> input := ''second'' \<rparr>"
proof -
  let ?blank = "sampleState \<lparr> input := [CHR '' '', CHR 0x09, CHR 0xA0, CHR 0x0A] \<rparr>"
  let ?busy = "handleSend sampleEngine 5 6 sampleState \<lparr> input := ''second'' \<rparr>"
  have e: "trim (input ?blank) = []"
    by (simp add: trim_def isWhiteSpace_def)
  have b: "isBusy ?busy"
    by (simp add: handleSend_accepted [OF sample_accepted])
  show ?thesis
    using e b handleSend_rejected [of ?blank sampleEngine 5 6]
      handleSend_rejected [of ?busy sampleEngine 7 8] by simp
qed

section \<open>The busy flag\<close>

text \<open>
  C2. In every state the component reaches from its first render: the flag is false at
  the start; a submission leaves it true exactly when it was true already or the
  submission is accepted; the settlement of \<open>renderGeminiCanvas\<close> leaves it false
  whatever the outcome (fulfilled or rejected); no other event changes it. So it is true
  from an accepted submission up to the settlement, and false otherwise.
\<close>

theorem busy_flag:
  assumes init: "initialState ve now0 = Some s0"
  shows "\<not> isBusy s0
       \<and> isBusy (step ve (run ve s0 evs) (Send n1 n2))
           = (isBusy (run ve s0 evs) \<or> accepted (run ve s0 evs))
       \<and> \<not> isBusy (step ve (run ve s0 evs) (Settle outcome n3 n4))
       \<and> (\<not> isSend e \<and> \<not> isSettle e
            \<longrightarrow> isBusy (step ve (run ve s0 evs) e) = isBusy (run ve s0 evs))"
proof -
  let ?s = "run ve s0 evs"
  have wf: "wellFormed ?s"
    using init by (simp add: wellFormed_initial wellFormed_run)
  have a: "\<not> isBusy s0"
    using init by (auto simp: initialState_def split: list.splits)
  have b: "isBusy (step ve ?s (Send n1 n2)) = (isBusy ?s \<or> accepted ?s)"
    by (cases "accepted ?s")
      (simp_all add: handleSend_accepted handleSend_not_accepted)
  have c: "\<not> isBusy (step ve ?s (Settle outcome n3 n4))"
    using wf by (cases outcome)
      (auto simp: wellFormed_def handleSend_settled_def Let_def split: option.splits)
  have d: "\<not> isSend e \<and> \<not> isSettle e \<longrightarrow> isBusy (step ve ?s e) = isBusy ?s"
    by (cases e) (simp_all add: handleFileLoaded_def handleAdoptBase_def handleClearBase_def)
  from a b c d show ?thesis by blast
qed

theorem busy_flag_witness:
  "initialState sampleEngine 1000 = Some (sampleState \<lparr> input := initialInput \<rparr>)
   \<and> \<not> isBusy (sampleState \<lparr> input := initialInput \<rparr>)
   \<and> isBusy (step sampleEngine sampleState (Send 5 6))
   \<and> \<not> isBusy (step sampleEngine (step sampleEngine sampleState (Send 5 6)) (Settle Rejected 7 8))
   \<and> \<not> isBusy (step sampleEngine (step sampleEngine sampleState (Send 5 6))
                  (Settle (Fulfilled ''data:x'') 7 8))
   \<and> isBusy (step sampleEngine (step sampleEngine sampleState (Send 5 6)) ClearBase)"
proof -
  let ?s0 = "sampleState \<lparr> input := initialInput \<rparr>"
  have r1: "run sampleEngine ?s0 [SetInput ''neon city''] = sampleState"
    by (rule sample_typed)
  have r2: "run sampleEngine ?s0 [SetInput ''neon city'', Send 5 6]
              = step sampleEngine sampleState (Send 5 6)"
    by (simp add: sampleState_def)
  have acc: "accepted sampleState" by (rule sample_accepted)
  have nb: "\<not> isBusy sampleState" by (simp add: sampleState_def)
  note t1 = busy_flag [OF sample_initial, of "[SetInput ''neon city'']" 5 6 Rejected 7 8 ClearBase]
  note t2 = busy_flag [OF sample_initial, of "[SetInput ''neon city'', Send 5 6]" 5 6
                Rejected 7 8 ClearBase]
  note t3 = busy_flag [OF sample_initial, of "[SetInput ''neon city'', Send 5 6]" 5 6
                "Fulfilled ''data:x''" 7 8 ClearBase]
  have busy1: "isBusy (step sampleEngine sampleState (Send 5 6))"
    using t1 acc unfolding r1 by simp
  show ?thesis
    using sample_initial t1 t2 t3 busy1 unfolding r1 r2 by simp
qed

section \<open>The iteration counter\<close>

text \<open>
  C3. From the first render on: the counter starts at 0; \<open>handleSend\<close> adds exactly 1 to
  it when the submission is accepted and leaves it alone otherwise; no other event, the
  settlement included, changes it, so a failed attempt keeps its increment. The assistant
  message that the settlement of an accepted submission appends, fulfilled or rejected,
  carries in \<open>meta.iteration\<close> the counter's value after that submission's increment.
  Read along the log, the \<open>meta.iteration\<close> values never decrease.
\<close>

theorem iteration_counter:
  assumes init: "initialState ve now0 = Some s0"
  shows "iteration s0 = 0
       \<and> iteration (handleSend ve n1 n2 (run ve s0 evs))
           = (if accepted (run ve s0 evs) then iteration (run ve s0 evs) + 1
              else iteration (run ve s0 evs))
       \<and> (\<not> isSend e \<longrightarrow> iteration (step ve (run ve s0 evs) e) = iteration (run ve s0 evs))
       \<and> (accepted (run ve s0 evs) \<and> (\<forall>e' \<in> set evs'. \<not> isSettle e')
            \<longrightarrow> (\<exists>m x. messages (handleSend_settled outcome n3 n4
                                    (run ve (handleSend ve n1 n2 (run ve s0 evs)) evs'))
                           = messages (handleSend ve n1 n2 (run ve s0 evs)) @ [m]
                         \<and> role m = Assistant \<and> meta m = Some x
                         \<and> meta_iteration x = iteration (run ve s0 evs) + 1))
       \<and> sorted (iterationsOf (messages (run ve s0 evs)))"
proof -
  let ?s = "run ve s0 evs"
  have ne: "profileOptions ve \<noteq> []"
    using init by (rule initialState_catalog)
  have wf: "wellFormed ?s"
    using init by (simp add: wellFormed_initial wellFormed_run)
  have a: "iteration s0 = 0"
    using init by (auto simp: initialState_def split: list.splits)
  have b: "iteration (handleSend ve n1 n2 ?s)
             = (if accepted ?s then iteration ?s + 1 else iteration ?s)"
    by (cases "accepted ?s") (simp_all add: handleSend_accepted handleSend_not_accepted)
  have c: "\<not> isSend e \<longrightarrow> iteration (step ve ?s e) = iteration ?s"
    by (cases e)
      (auto simp: handleSend_settled_def handleFileLoaded_def handleAdoptBase_def
        handleClearBase_def Let_def split: option.splits Settlement.splits)
  have d: "\<exists>m x. messages (handleSend_settled outcome n3 n4
                             (run ve (handleSend ve n1 n2 ?s) evs'))
                    = messages (handleSend ve n1 n2 ?s) @ [m]
                  \<and> role m = Assistant \<and> meta m = Some x
                  \<and> meta_iteration x = iteration ?s + 1"
    if acc: "accepted ?s" and ns: "\<forall>e' \<in> set evs'. \<not> isSettle e'"
  proof -
    let ?s2 = "run ve (handleSend ve n1 n2 ?s) evs'"
    from attempt_in_flight [OF ne acc ns, of n1 n2]
    obtain prof k where k: "pending ?s2 = Some k" "p_styleProfile k = Some prof"
        "p_nextIteration k = iteration ?s + 1"
      and msgs: "messages ?s2 = messages (handleSend ve n1 n2 ?s)"
      by auto
    show ?thesis
      by (cases outcome)
        (simp_all add: settled_Fulfilled [OF k(1,2)] settled_Rejected [OF k(1,2)] k(3) msgs)
  qed
  have e: "sorted (iterationsOf (messages ?s))"
    using wf by (simp add: wellFormed_def)
  from a b c d e show ?thesis by blast
qed

theorem iteration_counter_witness:
  "initialState sampleEngine 1000 = Some (sampleState \<lparr> input := initialInput \<rparr>)
   \<and> iteration (sampleState \<lparr> input := initialInput \<rparr>) = 0
   \<and> iteration (handleSend sampleEngine 5 6 sampleState) = 1
   \<and> iteration (step sampleEngine (handleSend sampleEngine 5 6 sampleState)
                  (Settle Rejected 7 8)) = 1
   \<and> (\<exists>m x. messages (handleSend_settled Rejected 7 8
                        (run sampleEngine (handleSend sampleEngine 5 6 sampleState) [ClearBase]))
               = messages (handleSend sampleEngine 5 6 sampleState) @ [m]
             \<and> role m = Assistant \<and> meta m = Some x \<and> meta_iteration x = 1)
   \<and> iterationsOf (messages (handleSend_settled Rejected 7 8
                                (handleSend sampleEngine 5 6 sampleState))) = [0, 1]"
proof -
  let ?s0 = "sampleState \<lparr> input := initialInput \<rparr>"
  have r1: "run sampleEngine ?s0 [SetInput ''neon city''] = sampleState"
    by (rule sample_typed)
  have r2: "run sampleEngine ?s0 [SetInput ''neon city'', Send 5 6]
              = handleSend sampleEngine 5 6 sampleState"
    by (simp add: sampleState_def)
  have it0: "iteration sampleState = 0" by (simp add: sampleState_def)
  have ns: "\<forall>e' \<in> set [ClearBase]. \<not> isSettle e'" by simp
  note t1 = iteration_counter [OF sample_initial, of 5 6 "[SetInput ''neon city'']"
      ClearBase "[ClearBase]" Rejected 7 8]
  note t2 = iteration_counter [OF sample_initial, of 5 6 "[SetInput ''neon city'', Send 5 6]"
      "Settle Rejected 7 8" "[]" Rejected 7 8]
  have its: "iterationsOf (messages (handleSend_settled Rejected 7 8
                                (handleSend sampleEngine 5 6 sampleState))) = [0, 1]"
    by (simp add: handleSend_accepted [OF sample_accepted] handleSend_settled_def Let_def
        resolveProfile_def profileOptions_def sampleEngine_def sampleCatalog_def)
      (simp add: sampleState_def)
  show ?thesis
    using sample_initial sample_accepted it0 ns its t1 t2 unfolding r1 r2 by simp
qed

section \<open>Failed generations\<close>

text \<open>
  C4. When the generation of an accepted submission is rejected, the \<open>catch\<close> block
  appends one assistant message: the fixed apology text, no image, and a \<open>meta\<close> with
  the id of the profile resolved at the submission, the iteration number of the attempt
  (the counter before the submission plus 1) and no \<open>baseImageUsed\<close>. The counter keeps
  the attempt's increment, the busy flag is cleared, and every other field of the state
  is as it was just before the settlement.
\<close>

theorem failure_recovery:
  assumes ne: "profileOptions ve \<noteq> []" and acc: "accepted s"
    and ns: "\<forall>e \<in> set evs. \<not> isSettle e"
    and s2: "s2 = run ve (handleSend ve n1 n2 s) evs"
  shows "\<exists>prof. resolveProfile ve
                   (if styleId s \<noteq> [] then styleId s
                    else profile_id (pickStyleProfile ve (trim (input s) @ styleId s)))
                 = Some prof
           \<and> handleSend_settled Rejected n3 n4 s2
               = s2 \<lparr> messages := messages s2 @
                       [\<lparr> msg_id = ''assistant-error-'' @ Number_toString n3,
                          role = Assistant, msg_text = apologyText, msg_image = None,
                          createdAt = n4,
                          meta = Some \<lparr> meta_styleId = profile_id prof,
                                        meta_iteration = iteration s + 1,
                                        baseImageUsed = None \<rparr> \<rparr>],
                     isBusy := False, pending := None \<rparr>
           \<and> iteration (handleSend_settled Rejected n3 n4 s2) = iteration s + 1"
proof -
  from attempt_in_flight [OF ne acc ns, of n1 n2]
  obtain prof k where prof: "resolveProfile ve
                   (if styleId s \<noteq> [] then styleId s
                    else profile_id (pickStyleProfile ve (trim (input s) @ styleId s)))
                 = Some prof"
    and k: "pending s2 = Some k" "p_styleProfile k = Some prof"
      "p_nextIteration k = iteration s + 1"
    and it: "iteration s2 = iteration s + 1"
    unfolding s2 by auto
  show ?thesis
    using prof it by (simp add: settled_Rejected [OF k(1,2)] k(3))
qed

theorem failure_recovery_witness:
  "profileOptions sampleEngine \<noteq> [] \<and> accepted sampleState
   \<and> handleSend_settled Rejected 7 8
        (run sampleEngine (handleSend sampleEngine 5 6 sampleState)
           [FileLoaded ''data:y'' ''y.png''])
      = \<lparr> messages =
            [\<lparr> msg_id = ''init-assistant'', role = Assistant, msg_text = welcomeText,
               msg_image = None, createdAt = 1000,
               meta = Some \<lparr> meta_styleId = ''aurora'', meta_iteration = 0,
                             baseImageUsed = None \<rparr> \<rparr>,
             \<lparr> msg_id = ''user-5'', role = User, msg_text = ''neon city'',
               msg_image = None, createdAt = 6, meta = None \<rparr>,
             \<lparr> msg_id = ''assistant-error-7'', role = Assistant, msg_text = apologyText,
               msg_image = None, createdAt = 8,
               meta = Some \<lparr> meta_styleId = ''aurora'', meta_iteration = 1,
                             baseImageUsed = None \<rparr> \<rparr>],
          input = [], isBusy = False, styleId = ''aurora'', iteration = 1,
          baseImageData = Some ''data:y'', previewBaseName = Some ''y.png'',
          pending = None \<rparr>"
proof -
  let ?s2 = "run sampleEngine (handleSend sampleEngine 5 6 sampleState)
               [FileLoaded ''data:y'' ''y.png'']"
  have ns: "\<forall>e \<in> set [FileLoaded ''data:y'' ''y.png'']. \<not> isSettle e" by simp
  have res: "resolveProfile sampleEngine ''aurora''
               = Some \<lparr> profile_id = ''aurora'', label = ''Aurora'' \<rparr>"
    by (simp add: resolveProfile_def profileOptions_def sampleEngine_def sampleCatalog_def)
  have sid: "styleId sampleState = ''aurora''" "iteration sampleState = 0"
    by (simp_all add: sampleState_def)
  have d5: "Number_toString 5 = ''5''" "Number_toString 7 = ''7''"
    by code_simp+
  have s2: "?s2 = sampleState \<lparr> isBusy := True, input := [],
               messages := messages sampleState @
                 [\<lparr> msg_id = ''user-5'', role = User, msg_text = ''neon city'',
                    msg_image = None, createdAt = 6, meta = None \<rparr>],
               iteration := 1,
               pending := Some \<lparr> p_prompt = ''neon city'',
                   p_styleProfile = Some \<lparr> profile_id = ''aurora'', label = ''Aurora'' \<rparr>,
                   p_nextIteration = 1, p_baseImageData = None \<rparr>,
               baseImageData := Some ''data:y'', previewBaseName := Some ''y.png'' \<rparr>"
    by (simp add: handleSend_accepted [OF sample_accepted] sid res sample_trim d5
        handleFileLoaded_def) (simp add: sampleState_def)
  from failure_recovery [where ?n1.0 = 5 and ?n2.0 = 6 and ?n3.0 = 7 and ?n4.0 = 8,
      OF sample_catalog sample_accepted ns refl]
  have "handleSend_settled Rejected 7 8 ?s2
          = ?s2 \<lparr> messages := messages ?s2 @
                       [\<lparr> msg_id = ''assistant-error-'' @ Number_toString 7,
                          role = Assistant, msg_text = apologyText, msg_image = None,
                          createdAt = 8,
                          meta = Some \<lparr> meta_styleId = ''aurora'',
                                        meta_iteration = 1,
                                        baseImageUsed = None \<rparr> \<rparr>],
                     isBusy := False, pending := None \<rparr>"
    by (auto simp: sid res)
  then have "handleSend_settled Rejected 7 8 ?s2
          = \<lparr> messages =
            [\<lparr> msg_id = ''init-assistant'', role = Assistant, msg_text = welcomeText,
               msg_image = None, createdAt = 1000,
               meta = Some \<lparr> meta_styleId = ''aurora'', meta_iteration = 0,
                             baseImageUsed = None \<rparr> \<rparr>,
             \<lparr> msg_id = ''user-5'', role = User, msg_text = ''neon city'',
               msg_image = None, createdAt = 6, meta = None \<rparr>,
             \<lparr> msg_id = ''assistant-error-7'', role = Assistant, msg_text = apologyText,
               msg_image = None, createdAt = 8,
               meta = Some \<lparr> meta_styleId = ''aurora'', meta_iteration = 1,
                             baseImageUsed = None \<rparr> \<rparr>],
          input = [], isBusy = False, styleId = ''aurora'', iteration = 1,
          baseImageData = Some ''data:y'', previewBaseName = Some ''y.png'',
          pending = None \<rparr>"
    unfolding s2 by (simp add: d5 sampleState_def)
  with sample_catalog sample_accepted show ?thesis by simp
qed

section \<open>The base image is kept\<close>

lemma step_keeps_base:
  "\<not> changesBase e \<Longrightarrow>
     baseImageData (step ve s e) = baseImageData s
     \<and> previewBaseName (step ve s e) = previewBaseName s"
  by (cases e)
    (auto simp: handleSend_def handleSend_settled_def Let_def
      split: option.splits Settlement.splits)

lemma run_keeps_base:
  "\<forall>e \<in> set evs. \<not> changesBase e \<Longrightarrow>
     baseImageData (run ve s evs) = baseImageData s
     \<and> previewBaseName (run ve s evs) = previewBaseName s"
proof (induction evs arbitrary: s)
  case Nil
  then show ?case by simp
next
  case (Cons e evs)
  from Cons.prems have "\<not> changesBase e" and rest: "\<forall>e \<in> set evs. \<not> changesBase e"
    by simp_all
  then have "baseImageData (step ve s e) = baseImageData s
     \<and> previewBaseName (step ve s e) = previewBaseName s"
    by (simp add: step_keeps_base)
  with Cons.IH [OF rest, of "step ve s e"] show ?case by simp
qed

text \<open>
  C10. Submissions and their settlements, fulfilled or rejected, leave the base image
  and its preview label as they are: over any run without an upload, an adoption or a
  clearing both are unchanged, and every accepted submission after such a run captures
  that same base image for its generation. Adopting from a message without an image
  (\<open>undefined\<close> or empty) changes nothing at all.
\<close>

theorem base_image_frame:
  assumes "\<forall>e \<in> set evs. \<not> changesBase e"
  shows "baseImageData (run ve s evs) = baseImageData s
       \<and> previewBaseName (run ve s evs) = previewBaseName s
       \<and> (accepted (run ve s evs)
            \<longrightarrow> (\<exists>k. pending (handleSend ve n1 n2 (run ve s evs)) = Some k
                      \<and> p_baseImageData k = baseImageData s))
       \<and> (\<not> Boolean img \<longrightarrow> handleAdoptBase img s' = s')"
proof -
  have keep: "baseImageData (run ve s evs) = baseImageData s
       \<and> previewBaseName (run ve s evs) = previewBaseName s"
    using assms by (rule run_keeps_base)
  have "\<exists>k. pending (handleSend ve n1 n2 (run ve s evs)) = Some k
             \<and> p_baseImageData k = baseImageData s"
    if "accepted (run ve s evs)"
    using keep by (simp add: handleSend_accepted [OF that])
  moreover have "\<not> Boolean img \<longrightarrow> handleAdoptBase img s' = s'"
    by (simp add: handleAdoptBase_def)
  ultimately show ?thesis using keep by blast
qed

theorem base_image_frame_witness:
  "list_all (\<lambda>e. \<not> changesBase e)
      [Send 5 6, Settle Rejected 7 8, SetInput ''again'', Send 9 10,
       Settle (Fulfilled ''data:x'') 11 12, SetInput ''more'']
   \<and> baseImageData (run sampleEngine (handleFileLoaded ''data:y'' ''y.png'' sampleState)
        [Send 5 6, Settle Rejected 7 8, SetInput ''again'', Send 9 10,
         Settle (Fulfilled ''data:x'') 11 12, SetInput ''more'']) = Some ''data:y''
   \<and> previewBaseName (run sampleEngine (handleFileLoaded ''data:y'' ''y.png'' sampleState)
        [Send 5 6, Settle Rejected 7 8, SetInput ''again'', Send 9 10,
         Settle (Fulfilled ''data:x'') 11 12, SetInput ''more'']) = Some ''y.png''
   \<and> accepted (run sampleEngine (handleFileLoaded ''data:y'' ''y.png'' sampleState)
        [Send 5 6, Settle Rejected 7 8, SetInput ''again'', Send 9 10,
         Settle (Fulfilled ''data:x'') 11 12, SetInput ''more''])
   \<and> (\<exists>k. pending (handleSend sampleEngine 13 14
                (run sampleEngine (handleFileLoaded ''data:y'' ''y.png'' sampleState)
                   [Send 5 6, Settle Rejected 7 8, SetInput ''again'', Send 9 10,
                    Settle (Fulfilled ''data:x'') 11 12, SetInput ''more''])) = Some k
           \<and> p_baseImageData k = Some ''data:y'')
   \<and> handleAdoptBase None sampleState = sampleState"
proof -
  let ?evs = "[Send 5 6, Settle Rejected 7 8, SetInput ''again'', Send 9 10,
               Settle (Fulfilled ''data:x'') 11 12, SetInput ''more'']"
  let ?s = "handleFileLoaded ''data:y'' ''y.png'' sampleState"
  have h: "\<forall>e \<in> set ?evs. \<not> changesBase e" by simp
  have b: "\<not> Boolean None" by simp
  have h': "list_all (\<lambda>e. \<not> changesBase e) ?evs" by simp
  have base: "baseImageData ?s = Some ''data:y''" "previewBaseName ?s = Some ''y.png''"
    by (simp_all add: handleFileLoaded_def)
  have acc: "accepted (run sampleEngine ?s ?evs)"
    by (simp add: accepted_def sampleState_def handleFileLoaded_def handleSend_def
        handleSend_settled_def Let_def trim_def isWhiteSpace_def resolveProfile_def
        profileOptions_def sampleEngine_def sampleCatalog_def)
  from base_image_frame [OF h, of sampleEngine ?s 13 14 None sampleState] acc b
  have "baseImageData (run sampleEngine ?s ?evs) = Some ''data:y''
        \<and> previewBaseName (run sampleEngine ?s ?evs) = Some ''y.png''
        \<and> (\<exists>k. pending (handleSend sampleEngine 13 14 (run sampleEngine ?s ?evs)) = Some k
               \<and> p_baseImageData k = Some ''data:y'')
        \<and> handleAdoptBase None sampleState = sampleState"
    unfolding base by blast
  with h' acc show ?thesis by blast
qed

section \<open>The base-image flag of a generation\<close>

text \<open>
  C7. The assistant message of a fulfilled generation carries \<open>baseImageUsed\<close> equal to
  \<open>Boolean(baseImageData)\<close> as it was at the submission: true exactly when a base image
  was active then. Neither the returned image nor an upload, adoption or clearing made
  while the generation is in flight has a say. In particular, when the submission follows
  the adoption of a message's image (with no upload or clearing in between), the flag is
  true.
\<close>

theorem baseImageUsed_flag:
  assumes ne: "profileOptions ve \<noteq> []" and acc: "accepted s"
    and ns: "\<forall>e \<in> set evs. \<not> isSettle e"
  shows "\<exists>m x. messages (handleSend_settled (Fulfilled img) n3 n4
                          (run ve (handleSend ve n1 n2 s) evs))
                 = messages (handleSend ve n1 n2 s) @ [m]
               \<and> msg_image m = Some img \<and> meta m = Some x
               \<and> baseImageUsed x = Some (Boolean (baseImageData s))
               \<and> (Boolean adopted \<and> (\<forall>e \<in> set evs0. \<not> changesBase e)
                    \<and> s = run ve (handleAdoptBase adopted s0) evs0
                   \<longrightarrow> baseImageUsed x = Some True)"
proof -
  let ?s2 = "run ve (handleSend ve n1 n2 s) evs"
  from attempt_in_flight [OF ne acc ns, of n1 n2]
  obtain prof k where k: "pending ?s2 = Some k" "p_styleProfile k = Some prof"
      "p_baseImageData k = baseImageData s"
    and msgs: "messages ?s2 = messages (handleSend ve n1 n2 s)"
    by auto
  have adopt: "Boolean (baseImageData s)"
    if "Boolean adopted" "\<forall>e \<in> set evs0. \<not> changesBase e"
       "s = run ve (handleAdoptBase adopted s0) evs0"
  proof -
    have "baseImageData s = baseImageData (handleAdoptBase adopted s0)"
      using that(2,3) run_keeps_base by blast
    also have "\<dots> = adopted"
      using that(1) by (simp add: handleAdoptBase_def)
    finally show ?thesis using that(1) by simp
  qed
  show ?thesis
    using adopt by (auto simp: settled_Fulfilled [OF k(1,2)] k(3) msgs)
qed

theorem baseImageUsed_flag_witness:
  "profileOptions sampleEngine \<noteq> [] \<and> accepted sampleState
   \<and> (\<exists>m x. messages (handleSend_settled (Fulfilled ''data:x'') 7 8
                        (run sampleEngine (handleSend sampleEngine 5 6 sampleState)
                           [FileLoaded ''data:y'' ''y.png'']))
               = messages (handleSend sampleEngine 5 6 sampleState) @ [m]
             \<and> meta m = Some x \<and> baseImageUsed x = Some False)
   \<and> accepted (handleAdoptBase (Some ''data:x'') sampleState)
   \<and> (\<exists>m x. messages (handleSend_settled (Fulfilled ''data:z'') 7 8
                        (run sampleEngine
                           (handleSend sampleEngine 5 6
                              (handleAdoptBase (Some ''data:x'') sampleState)) [ClearBase]))
               = messages (handleSend sampleEngine 5 6
                             (handleAdoptBase (Some ''data:x'') sampleState)) @ [m]
             \<and> meta m = Some x \<and> baseImageUsed x = Some True)"
proof -
  let ?a = "handleAdoptBase (Some ''data:x'') sampleState"
  have ns1: "\<forall>e \<in> set [FileLoaded ''data:y'' ''y.png'']. \<not> isSettle e" by simp
  have ns2: "\<forall>e \<in> set [ClearBase]. \<not> isSettle e" by simp
  have acc2: "accepted ?a"
    using sample_accepted by (simp add: accepted_def handleAdoptBase_def)
  have base: "baseImageData sampleState = None" by (simp add: sampleState_def)
  have ad: "Boolean (Some ''data:x'') \<and> (\<forall>e \<in> set []. \<not> changesBase e)
            \<and> ?a = run sampleEngine (handleAdoptBase (Some ''data:x'') sampleState) []"
    by simp
  note t1 = baseImageUsed_flag [OF sample_catalog sample_accepted ns1,
      where img = "''data:x''" and ?n1.0 = 5 and ?n2.0 = 6 and ?n3.0 = 7 and ?n4.0 = 8
        and adopted = None and ?evs0.0 = "[]" and ?s0.0 = sampleState]
  note t2 = baseImageUsed_flag [OF sample_catalog acc2 ns2,
      where img = "''data:z''" and ?n1.0 = 5 and ?n2.0 = 6 and ?n3.0 = 7 and ?n4.0 = 8
        and adopted = "Some ''data:x''" and ?evs0.0 = "[]" and ?s0.0 = sampleState]
  from t1 have c1: "\<exists>m x. messages (handleSend_settled (Fulfilled ''data:x'') 7 8
                        (run sampleEngine (handleSend sampleEngine 5 6 sampleState)
                           [FileLoaded ''data:y'' ''y.png'']))
               = messages (handleSend sampleEngine 5 6 sampleState) @ [m]
             \<and> meta m = Some x \<and> baseImageUsed x = Some False"
    unfolding base by auto
  from t2 ad have c2: "\<exists>m x. messages (handleSend_settled (Fulfilled ''data:z'') 7 8
                        (run sampleEngine (handleSend sampleEngine 5 6 ?a) [ClearBase]))
               = messages (handleSend sampleEngine 5 6 ?a) @ [m]
             \<and> meta m = Some x \<and> baseImageUsed x = Some True"
    by blast
  from sample_catalog sample_accepted acc2 c1 c2 show ?thesis by blast
qed

section \<open>The style of a generation\<close>

lemma resolveProfile_known:
  assumes "i \<in> profile_id ` set (profileOptions ve)"
  shows "\<exists>p. resolveProfile ve i = Some p \<and> profile_id p = i"
proof (cases "find (\<lambda>q. profile_id q = i) (profileOptions ve)")
  case None
  then show ?thesis using assms by (auto simp: find_no_match)
next
  case (Some p)
  then show ?thesis
    using find_first_match [OF Some] by (simp add: resolveProfile_def)
qed

text \<open>
  C1, as the code has it. The test on line 94 is on the selector value itself. When it is
  empty at an accepted submission, \<open>handleSend\<close> stores the id of
  \<open>pickStyleProfile(prompt + styleId)\<close> as the new selector value, and the
  assistant message of that generation, fulfilled or rejected, carries this id whenever
  the catalog has a profile of that id. When it is not empty, the selector value stays
  as it is, \<open>pickStyleProfile\<close>'s result is dropped, and the message carries the id
  of \<open>resolveProfile(styleId)\<close>.
\<close>

theorem style_of_submission:
  assumes ne: "profileOptions ve \<noteq> []" and acc: "accepted s"
    and ns: "\<forall>e \<in> set evs. \<not> isSettle e"
    and fp: "firstProfile = pickStyleProfile ve (trim (input s) @ styleId s)"
    and s3: "s3 = handleSend_settled outcome n3 n4 (run ve (handleSend ve n1 n2 s) evs)"
  shows "(styleId s = [] \<longrightarrow>
            styleId (handleSend ve n1 n2 s) = profile_id firstProfile
            \<and> (profile_id firstProfile \<in> profile_id ` set (profileOptions ve) \<longrightarrow>
                 (\<exists>m x. messages s3 = messages (handleSend ve n1 n2 s) @ [m]
                        \<and> meta m = Some x \<and> meta_styleId x = profile_id firstProfile)))
       \<and> (styleId s \<noteq> [] \<longrightarrow>
            styleId (handleSend ve n1 n2 s) = styleId s
            \<and> (\<exists>prof m x. resolveProfile ve (styleId s) = Some prof
                   \<and> messages s3 = messages (handleSend ve n1 n2 s) @ [m]
                   \<and> meta m = Some x \<and> meta_styleId x = profile_id prof))"
proof -
  let ?s2 = "run ve (handleSend ve n1 n2 s) evs"
  let ?i = "if styleId s \<noteq> [] then styleId s else profile_id firstProfile"
  from attempt_in_flight [OF ne acc ns, of n1 n2]
  obtain prof k where prof: "resolveProfile ve ?i = Some prof"
    and k: "pending ?s2 = Some k" "p_styleProfile k = Some prof"
    and msgs: "messages ?s2 = messages (handleSend ve n1 n2 s)"
    unfolding fp by auto
  have carried: "\<exists>m x. messages s3 = messages (handleSend ve n1 n2 s) @ [m]
                    \<and> meta m = Some x \<and> meta_styleId x = profile_id prof"
    unfolding s3
    by (cases outcome)
      (simp_all add: settled_Fulfilled [OF k] settled_Rejected [OF k] msgs)
  have sel: "styleId (handleSend ve n1 n2 s)
               = (if styleId s = [] then profile_id firstProfile else styleId s)"
    by (simp add: handleSend_accepted [OF acc] fp)
  have empty: "\<exists>m x. messages s3 = messages (handleSend ve n1 n2 s) @ [m]
                  \<and> meta m = Some x \<and> meta_styleId x = profile_id firstProfile"
    if "styleId s = []" "profile_id firstProfile \<in> profile_id ` set (profileOptions ve)"
  proof -
    from resolveProfile_known [OF that(2)] prof that(1)
    have "profile_id prof = profile_id firstProfile" by auto
    with carried show ?thesis by simp
  qed
  have nonempty: "\<exists>prof m x. resolveProfile ve (styleId s) = Some prof
                   \<and> messages s3 = messages (handleSend ve n1 n2 s) @ [m]
                   \<and> meta m = Some x \<and> meta_styleId x = profile_id prof"
    if "styleId s \<noteq> []"
    using prof carried that by auto
  from sel empty nonempty show ?thesis by simp
qed

theorem style_of_submission_witness:
  "profileOptions sampleEngine \<noteq> [] \<and> accepted (sampleState \<lparr> styleId := [] \<rparr>)
   \<and> pickStyleProfile sampleEngine ''neon city'' = \<lparr> profile_id = ''noir'', label = ''Noir'' \<rparr>
   \<and> ''noir'' \<in> profile_id ` set (profileOptions sampleEngine)
   \<and> styleId (handleSend sampleEngine 5 6 (sampleState \<lparr> styleId := [] \<rparr>)) = ''noir''
   \<and> (\<exists>m x. messages (handleSend_settled (Fulfilled ''data:x'') 7 8
                        (run sampleEngine
                           (handleSend sampleEngine 5 6 (sampleState \<lparr> styleId := [] \<rparr>)) []))
               = messages (handleSend sampleEngine 5 6 (sampleState \<lparr> styleId := [] \<rparr>)) @ [m]
             \<and> meta m = Some x \<and> meta_styleId x = ''noir'')
   \<and> styleId (handleSend sampleEngine 5 6 sampleState) = ''aurora''"
proof -
  let ?e = "sampleState \<lparr> styleId := [] \<rparr>"
  have acc: "accepted ?e"
    using sample_accepted by (simp add: accepted_def)
  have ns: "\<forall>e \<in> set []. \<not> isSettle e" by simp
  have tr: "trim (input ?e) @ styleId ?e = ''neon city''"
    using sample_trim by simp
  have pk: "pickStyleProfile sampleEngine ''neon city''
              = \<lparr> profile_id = ''noir'', label = ''Noir'' \<rparr>"
    by (simp add: sampleEngine_def)
  have mem: "''noir'' \<in> profile_id ` set (profileOptions sampleEngine)"
    by (simp add: profileOptions_def sampleEngine_def sampleCatalog_def)
  have sid: "styleId ?e = []" "styleId sampleState = ''aurora''" "styleId sampleState \<noteq> []"
    by (simp_all add: sampleState_def)
  note t1 = style_of_submission [OF sample_catalog acc ns refl refl,
      where outcome = "Fulfilled ''data:x''" and ?n1.0 = 5 and ?n2.0 = 6 and ?n3.0 = 7
        and ?n4.0 = 8]
  note t2 = style_of_submission [OF sample_catalog sample_accepted ns refl refl,
      where outcome = "Fulfilled ''data:x''" and ?n1.0 = 5 and ?n2.0 = 6 and ?n3.0 = 7
        and ?n4.0 = 8]
  from t1 have a: "styleId (handleSend sampleEngine 5 6 ?e) = ''noir''
     \<and> (\<exists>m x. messages (handleSend_settled (Fulfilled ''data:x'') 7 8
                        (run sampleEngine (handleSend sampleEngine 5 6 ?e) []))
               = messages (handleSend sampleEngine 5 6 ?e) @ [m]
             \<and> meta m = Some x \<and> meta_styleId x = ''noir'')"
    unfolding tr pk using mem sid(1) by simp
  from t2 sid have b: "styleId (handleSend sampleEngine 5 6 sampleState) = ''aurora''"
    by simp
  from sample_catalog acc pk mem a b show ?thesis by blast
qed

text \<open>
  The claim C1 as worded speaks of a submission before any explicit choice of style. The
  first render sets the selector value to the id of the catalog's first profile, so at
  the first submission, with no choice made, the selector value is not empty: the branch
  on line 94 is not taken, and the message carries the first profile's id, not the id
  that \<open>pickStyleProfile(prompt + styleId)\<close> returns.
\<close>

theorem first_submission_counterexample:
  "initialState sampleEngine 1000 = Some (sampleState \<lparr> input := initialInput \<rparr>)
   \<and> run sampleEngine (sampleState \<lparr> input := initialInput \<rparr>) [SetInput ''neon city'']
       = sampleState
   \<and> accepted sampleState
   \<and> profile_id (pickStyleProfile sampleEngine (trim (input sampleState) @ styleId sampleState))
       = ''noir''
   \<and> styleId (handleSend sampleEngine 5 6 sampleState) = ''aurora''
   \<and> map (map_option meta_styleId \<circ> meta)
        (messages (handleSend_settled (Fulfilled ''data:x'') 7 8
                     (handleSend sampleEngine 5 6 sampleState)))
       = [Some ''aurora'', None, Some ''aurora'']"
proof -
  have pk: "profile_id (pickStyleProfile sampleEngine
                          (trim (input sampleState) @ styleId sampleState)) = ''noir''"
    unfolding sample_trim by (simp add: sampleState_def sampleEngine_def)
  have sid: "styleId (handleSend sampleEngine 5 6 sampleState) = ''aurora''"
    by (simp add: handleSend_accepted [OF sample_accepted]) (simp add: sampleState_def)
  have ms: "map (map_option meta_styleId \<circ> meta)
        (messages (handleSend_settled (Fulfilled ''data:x'') 7 8
                     (handleSend sampleEngine 5 6 sampleState)))
       = [Some ''aurora'', None, Some ''aurora'']"
    by (simp add: handleSend_accepted [OF sample_accepted] handleSend_settled_def Let_def
        resolveProfile_def profileOptions_def sampleEngine_def sampleCatalog_def)
      (simp add: sampleState_def)
  from sample_initial sample_typed sample_accepted pk sid ms show ?thesis by blast
qed

section \<open>Style stickiness\<close>

text \<open>
  While the selector value is not empty and nobody changes it, every generation in flight
  holds the profile resolved from it, and every message appended carries that profile's
  id.
\<close>

lemma sticky_step:
  assumes "styleId s \<noteq> []"
    and "\<forall>k. pending s = Some k \<longrightarrow> p_styleProfile k = resolveProfile ve (styleId s)"
    and "\<not> isSelectStyle e"
  shows "styleId (step ve s e) = styleId s
       \<and> (\<forall>k. pending (step ve s e) = Some k
             \<longrightarrow> p_styleProfile k = resolveProfile ve (styleId s))
       \<and> (\<exists>zs. messages (step ve s e) = messages s @ zs
             \<and> (\<forall>m \<in> set zs. \<forall>x. meta m = Some x
                  \<longrightarrow> Some (meta_styleId x)
                        = map_option profile_id (resolveProfile ve (styleId s))))"
proof (cases e)
  case (Send n1 n2)
  show ?thesis
  proof (cases "accepted s")
    case True
    then show ?thesis
      using assms(1) Send by (simp add: handleSend_accepted)
  next
    case False
    then show ?thesis
      using assms(2) Send by (simp add: handleSend_not_accepted)
  qed
next
  case (Settle outcome n1 n2)
  show ?thesis
  proof (cases "pending s")
    case None
    then show ?thesis using Settle by (simp add: handleSend_settled_def)
  next
    case (Some k)
    with assms(2) have k: "p_styleProfile k = resolveProfile ve (styleId s)" by simp
    show ?thesis
    proof (cases "resolveProfile ve (styleId s)")
      case None
      then show ?thesis
        using Settle Some k by (simp add: handleSend_settled_def)
    next
      case (Some prof)
      with k have kp: "p_styleProfile k = Some prof" by simp
      show ?thesis
        using Settle Some
        by (cases outcome)
          (simp_all add: settled_Fulfilled [OF \<open>pending s = Some k\<close> kp]
            settled_Rejected [OF \<open>pending s = Some k\<close> kp])
    qed
  qed
next
  case (SelectStyle v)
  then show ?thesis using assms(3) by simp
qed (use assms(2) in \<open>simp_all add: handleFileLoaded_def handleAdoptBase_def handleClearBase_def\<close>)

lemma sticky_run:
  assumes "styleId s \<noteq> []"
    and "\<forall>k. pending s = Some k \<longrightarrow> p_styleProfile k = resolveProfile ve (styleId s)"
    and "\<forall>e \<in> set evs. \<not> isSelectStyle e"
  shows "\<exists>ys. messages (run ve s evs) = messages s @ ys
           \<and> (\<forall>m \<in> set ys. \<forall>x. meta m = Some x
                \<longrightarrow> Some (meta_styleId x)
                      = map_option profile_id (resolveProfile ve (styleId s)))"
  using assms
proof (induction evs arbitrary: s)
  case Nil
  then show ?case by simp
next
  case (Cons e evs)
  let ?t = "step ve s e"
  let ?ok = "\<lambda>m. \<forall>x. meta m = Some x
               \<longrightarrow> Some (meta_styleId x) = map_option profile_id (resolveProfile ve (styleId s))"
  from Cons.prems have ne: "\<not> isSelectStyle e" and rest: "\<forall>e \<in> set evs. \<not> isSelectStyle e"
    by simp_all
  from sticky_step [OF Cons.prems(1,2) ne]
  obtain zs where sid: "styleId ?t = styleId s"
    and pend: "\<forall>k. pending ?t = Some k \<longrightarrow> p_styleProfile k = resolveProfile ve (styleId s)"
    and zs: "messages ?t = messages s @ zs" "\<forall>m \<in> set zs. ?ok m"
    by blast
  from Cons.IH [of ?t] Cons.prems(1) sid pend rest
  obtain ys where ys: "messages (run ve ?t evs) = messages ?t @ ys" "\<forall>m \<in> set ys. ?ok m"
    by auto
  have "messages (run ve s (e # evs)) = messages s @ (zs @ ys)"
    using zs(1) ys(1) by simp
  moreover have "\<forall>m \<in> set (zs @ ys). ?ok m"
    using zs(2) ys(2) by auto
  ultimately show ?case by blast
qed

text \<open>
  With an empty selector value and no generation in flight nothing is appended until the
  first accepted submission, which stores the id of the profile it picks.
\<close>

lemma unset_run:
  assumes "styleId s = []" and "pending s = None"
    and "\<forall>seed. profile_id (pickStyleProfile ve seed) \<noteq> []"
    and "\<forall>e \<in> set evs. \<not> isSelectStyle e"
  shows "\<exists>sid ys. messages (run ve s evs) = messages s @ ys
           \<and> (\<forall>m \<in> set ys. \<forall>x. meta m = Some x \<longrightarrow> Some (meta_styleId x) = sid)"
  using assms
proof (induction evs arbitrary: s)
  case Nil
  then show ?case by simp
next
  case (Cons e evs)
  from Cons.prems have ne: "\<not> isSelectStyle e" and rest: "\<forall>e \<in> set evs. \<not> isSelectStyle e"
    by simp_all
  show ?case
  proof (cases "isSend e \<and> accepted s")
    case True
    then obtain n1 n2 where e: "e = Send n1 n2" by (cases e) auto
    let ?t = "handleSend ve n1 n2 s"
    from True have acc: "accepted s" by simp
    have t1: "styleId ?t \<noteq> []"
      using Cons.prems(1,3) by (simp add: handleSend_accepted [OF acc])
    have t2: "\<forall>k. pending ?t = Some k \<longrightarrow> p_styleProfile k = resolveProfile ve (styleId ?t)"
      using Cons.prems(1) by (simp add: handleSend_accepted [OF acc])
    from sticky_run [OF t1 t2 rest]
    obtain ys where ys: "messages (run ve ?t evs) = messages ?t @ ys"
      "\<forall>m \<in> set ys. \<forall>x. meta m = Some x
          \<longrightarrow> Some (meta_styleId x) = map_option profile_id (resolveProfile ve (styleId ?t))"
      by blast
    obtain u where u: "messages ?t = messages s @ [u]" "meta u = None"
      by (simp add: handleSend_accepted [OF acc])
    have "messages (run ve s (e # evs)) = messages s @ (u # ys)"
      using e ys(1) u(1) by simp
    moreover have "\<forall>m \<in> set (u # ys). \<forall>x. meta m = Some x
          \<longrightarrow> Some (meta_styleId x) = map_option profile_id (resolveProfile ve (styleId ?t))"
      using ys(2) u(2) by simp
    ultimately show ?thesis by blast
  next
    case False
    have same: "styleId (step ve s e) = [] \<and> pending (step ve s e) = None
                \<and> messages (step ve s e) = messages s"
    proof (cases e)
      case (Send n1 n2)
      with False have "\<not> accepted s" by simp
      then show ?thesis using Send Cons.prems(1,2) by (simp add: handleSend_not_accepted)
    next
      case (Settle outcome n1 n2)
      then show ?thesis using Cons.prems(1,2) by (simp add: handleSend_settled_def)
    next
      case (SelectStyle v)
      then show ?thesis using ne by simp
    qed (use Cons.prems(1,2) in
          \<open>simp_all add: handleFileLoaded_def handleAdoptBase_def handleClearBase_def\<close>)
    from Cons.IH [of "step ve s e"] same Cons.prems(3) rest show ?thesis
      by simp
  qed
qed

text \<open>
  C6. Take any stretch of events without a choice in the style selector, starting with
  no generation in flight, the profiles of the selector having non-empty ids (or the
  selector value being non-empty already). Then all assistant messages appended during
  the stretch carry the same \<open>meta.styleId\<close>, whatever the prompts were: two
  consecutive accepted submissions, each with its settlement, are such a stretch.
\<close>

theorem style_stickiness:
  assumes idle: "pending s = None"
    and ids: "styleId s \<noteq> [] \<or> (\<forall>seed. profile_id (pickStyleProfile ve seed) \<noteq> [])"
    and nosel: "\<forall>e \<in> set evs. \<not> isSelectStyle e"
  shows "\<forall>m1 \<in> set (drop (length (messages s)) (messages (run ve s evs))).
         \<forall>m2 \<in> set (drop (length (messages s)) (messages (run ve s evs))).
         \<forall>x1 x2. meta m1 = Some x1 \<and> meta m2 = Some x2
                  \<longrightarrow> meta_styleId x1 = meta_styleId x2"
proof -
  have "\<exists>sid ys. messages (run ve s evs) = messages s @ ys
           \<and> (\<forall>m \<in> set ys. \<forall>x. meta m = Some x \<longrightarrow> Some (meta_styleId x) = sid)"
  proof (cases "styleId s = []")
    case True
    with ids have "\<forall>seed. profile_id (pickStyleProfile ve seed) \<noteq> []" by simp
    from unset_run [OF True idle this nosel] show ?thesis .
  next
    case False
    from sticky_run [OF False _ nosel, of ve] idle show ?thesis by auto
  qed
  then obtain sid ys where ys: "messages (run ve s evs) = messages s @ ys"
    "\<forall>m \<in> set ys. \<forall>x. meta m = Some x \<longrightarrow> Some (meta_styleId x) = sid"
    by blast
  have "drop (length (messages s)) (messages (run ve s evs)) = ys"
    using ys(1) by simp
  with ys(2) show ?thesis by (metis option.inject)
qed

theorem style_stickiness_witness:
  "pending sampleState = None \<and> styleId sampleState \<noteq> []
   \<and> list_all (\<lambda>e. \<not> isSelectStyle e)
        [Send 5 6, Settle (Fulfilled ''data:x'') 7 8, SetInput ''a quiet harbour'',
         Send 9 10, Settle Rejected 11 12]
   \<and> map (map_option meta_styleId \<circ> meta)
        (drop (length (messages sampleState))
           (messages (run sampleEngine sampleState
              [Send 5 6, Settle (Fulfilled ''data:x'') 7 8, SetInput ''a quiet harbour'',
               Send 9 10, Settle Rejected 11 12])))
       = [None, Some ''aurora'', None, Some ''aurora'']
   \<and> (\<forall>seed. profile_id (pickStyleProfile sampleEngine seed) \<noteq> [])
   \<and> map (map_option meta_styleId \<circ> meta)
        (drop (length (messages sampleState))
           (messages (run sampleEngine (sampleState \<lparr> styleId := [] \<rparr>)
              [Send 5 6, Settle (Fulfilled ''data:x'') 7 8, SetInput ''a quiet harbour'',
               Send 9 10, Settle Rejected 11 12])))
       = [None, Some ''noir'', None, Some ''noir'']"
proof -
  let ?u = "sampleState \<lparr> styleId := [] \<rparr>"
  let ?evs = "[Send 5 6, Settle (Fulfilled ''data:x'') 7 8, SetInput ''a quiet harbour'',
               Send 9 10, Settle Rejected 11 12]"
  have idle: "pending sampleState = None" by (simp add: sampleState_def)
  have idle': "pending ?u = None" by (simp add: sampleState_def)
  have sid: "styleId sampleState \<noteq> []" by (simp add: sampleState_def)
  have ids: "\<forall>seed. profile_id (pickStyleProfile sampleEngine seed) \<noteq> []"
    by (simp add: sampleEngine_def)
  have nosel: "\<forall>e \<in> set ?evs. \<not> isSelectStyle e" by simp
  have nosel': "list_all (\<lambda>e. \<not> isSelectStyle e) ?evs" by simp
  have ev: "map (map_option meta_styleId \<circ> meta)
        (drop (length (messages sampleState)) (messages (run sampleEngine sampleState ?evs)))
       = [None, Some ''aurora'', None, Some ''aurora'']"
    by (simp add: sampleState_def handleSend_def handleSend_settled_def Let_def trim_def
        isWhiteSpace_def resolveProfile_def profileOptions_def sampleEngine_def
        sampleCatalog_def)
  have ev': "map (map_option meta_styleId \<circ> meta)
        (drop (length (messages sampleState)) (messages (run sampleEngine ?u ?evs)))
       = [None, Some ''noir'', None, Some ''noir'']"
    by (simp add: sampleState_def handleSend_def handleSend_settled_def Let_def trim_def
        isWhiteSpace_def resolveProfile_def profileOptions_def sampleEngine_def
        sampleCatalog_def)
  have len: "length (messages ?u) = length (messages sampleState)" by simp
  note t1 = style_stickiness [OF idle disjI1 [OF sid] nosel, of sampleEngine]
  note t2 = style_stickiness [OF idle' disjI2 [OF ids] nosel, unfolded len]
  from t1 t2 idle sid nosel' ev ev' ids
  show ?thesis by blast
qed

section \<open>Decimal numerals\<close>

lemma of_char_digit: "d < 10 \<Longrightarrow> of_char (digit_char d) = 48 + d"
  unfolding digit_char_def of_char_of by (simp only: mod_less)

lemma digit_char_inj:
  assumes "a < 10" "b < 10" "digit_char a = digit_char b"
  shows "a = b"
proof -
  have "(of_char (digit_char a) :: nat) = of_char (digit_char b)"
    by (simp only: assms(3))
  then have "48 + a = 48 + b"
    by (simp only: of_char_digit [OF assms(1)] of_char_digit [OF assms(2)])
  then show ?thesis by simp
qed

lemma decimal_nonempty: "decimal n \<noteq> []"
  by (subst decimal.simps) simp

lemma decimal_digits:
  "c \<in> set (decimal n) \<Longrightarrow> 48 \<le> (of_char c :: nat) \<and> (of_char c :: nat) \<le> 57"
proof (induction n rule: decimal.induct)
  case (1 n)
  show ?case
  proof (cases "n < 10")
    case True
    with "1.prems" have "c = digit_char n" by (subst (asm) decimal.simps) simp
    with True show ?thesis by (simp add: of_char_digit)
  next
    case False
    with "1.prems" have "c \<in> set (decimal (n div 10)) \<or> c = digit_char (n mod 10)"
      by (subst (asm) decimal.simps) auto
    then show ?thesis
    proof
      assume "c \<in> set (decimal (n div 10))"
      with "1.IH" False show ?thesis by simp
    next
      assume "c = digit_char (n mod 10)"
      then show ?thesis by (simp add: of_char_digit)
    qed
  qed
qed

lemma decimal_inj: "decimal n = decimal m \<Longrightarrow> n = m"
proof (induction n arbitrary: m rule: decimal.induct)
  case (1 n)
  show ?case
  proof (cases "n < 10")
    case n: True
    show ?thesis
    proof (cases "m < 10")
      case True
      with n "1.prems" have "digit_char n = digit_char m"
        by (simp add: decimal.simps [of n] decimal.simps [of m])
      with n True show ?thesis by (rule digit_char_inj)
    next
      case False
      with n "1.prems" have "[digit_char n] = decimal (m div 10) @ [digit_char (m mod 10)]"
        by (simp add: decimal.simps [of n] decimal.simps [of m])
      then show ?thesis using decimal_nonempty [of "m div 10"] by simp
    qed
  next
    case n: False
    show ?thesis
    proof (cases "m < 10")
      case True
      with n "1.prems" have "decimal (n div 10) @ [digit_char (n mod 10)] = [digit_char m]"
        by (simp add: decimal.simps [of n] decimal.simps [of m])
      then show ?thesis using decimal_nonempty [of "n div 10"] by simp
    next
      case False
      with n "1.prems" have eq: "decimal (n div 10) = decimal (m div 10)"
        "digit_char (n mod 10) = digit_char (m mod 10)"
        by (simp_all add: decimal.simps [of n] decimal.simps [of m])
      from "1.IH" [OF n eq(1)] have "n div 10 = m div 10" .
      moreover from eq(2) have "n mod 10 = m mod 10"
        by (intro digit_char_inj) simp_all
      ultimately show ?thesis by (metis div_mult_mod_eq)
    qed
  qed
qed

lemma decimal_head:
  "decimal n = c # cs \<Longrightarrow> 48 \<le> (of_char c :: nat) \<and> (of_char c :: nat) \<le> 57"
  using decimal_digits [of c n] by simp

lemma Number_toString_inj: "Number_toString a = Number_toString b \<Longrightarrow> a = b"
proof -
  assume eq: "Number_toString a = Number_toString b"
  have minus: "decimal n \<noteq> CHR ''-'' # cs" for n cs
    using decimal_head [of n "CHR ''-''" cs] by auto
  show ?thesis
  proof (cases "a < 0")
    case a: True
    show ?thesis
    proof (cases "b < 0")
      case True
      with a eq have "decimal (nat (- a)) = decimal (nat (- b))"
        by (simp add: Number_toString_def)
      then have "nat (- a) = nat (- b)" by (rule decimal_inj)
      with a True show ?thesis by simp
    next
      case False
      with a eq minus show ?thesis by (simp add: Number_toString_def) metis
    qed
  next
    case a: False
    show ?thesis
    proof (cases "b < 0")
      case True
      with a eq minus show ?thesis by (simp add: Number_toString_def)
    next
      case False
      with a eq have "decimal (nat a) = decimal (nat b)"
        by (simp add: Number_toString_def)
      then have "nat a = nat b" by (rule decimal_inj)
      with a False show ?thesis by simp
    qed
  qed
qed

lemma Number_toString_head:
  "Number_toString a \<noteq> CHR ''e'' # cs"
proof
  assume h: "Number_toString a = CHR ''e'' # cs"
  show False
  proof (cases "a < 0")
    case True
    with h show ?thesis by (simp add: Number_toString_def)
  next
    case False
    with h have "decimal (nat a) = CHR ''e'' # cs" by (simp add: Number_toString_def)
    from decimal_head [OF this] show ?thesis by simp
  qed
qed

lemma idOf_inj: "idOf p = idOf q \<Longrightarrow> p = q"
proof -
  assume eq: "idOf p = idOf q"
  obtain k a where p: "p = (k, a)" by (cases p)
  obtain l b where q: "q = (l, b)" by (cases q)
  note hd = Number_toString_head Number_toString_head [THEN not_sym]
  show ?thesis
    using eq unfolding p q
    by (cases k; cases l) (auto simp: hd dest: Number_toString_inj)
qed

lemma idOf_not_init: "idOf p \<noteq> ''init-assistant''"
proof -
  obtain k a where p: "p = (k, a)" by (cases p)
  show ?thesis unfolding p by (cases k) simp_all
qed

section \<open>The message log\<close>

lemma step_appends:
  "\<exists>zs. messages (step ve s e) = messages s @ zs
        \<and> map msg_id zs
            = map idOf (if messages (step ve s e) = messages s then [] else minted e)"
proof (cases e)
  case (Send n1 n2)
  show ?thesis
  proof (cases "accepted s")
    case True
    then show ?thesis using Send by (simp add: handleSend_accepted)
  next
    case False
    then show ?thesis using Send by (simp add: handleSend_not_accepted)
  qed
next
  case (Settle outcome n1 n2)
  show ?thesis
  proof (cases "pending s")
    case None
    then show ?thesis using Settle by (simp add: handleSend_settled_def)
  next
    case (Some k)
    show ?thesis
    proof (cases "p_styleProfile k")
      case None
      then show ?thesis using Settle Some by (simp add: handleSend_settled_def)
    next
      case (Some prof)
      then show ?thesis
        using Settle \<open>pending s = Some k\<close>
        by (cases outcome) (simp_all add: settled_Fulfilled settled_Rejected)
    qed
  qed
qed (simp_all add: handleFileLoaded_def handleAdoptBase_def handleClearBase_def)

lemma run_ids:
  "map msg_id (messages (run ve s evs))
     = map msg_id (messages s) @ map idOf (idReadings ve s evs)"
proof (induction evs arbitrary: s)
  case Nil
  then show ?case by simp
next
  case (Cons e evs)
  from step_appends [of ve s e]
  obtain zs where zs: "messages (step ve s e) = messages s @ zs"
    "map msg_id zs = map idOf (if messages (step ve s e) = messages s then [] else minted e)"
    by blast
  have "map msg_id (messages (run ve s (e # evs)))
          = map msg_id (messages (step ve s e)) @ map idOf (idReadings ve (step ve s e) evs)"
    using Cons.IH [of "step ve s e"] by simp
  also have "map msg_id (messages (step ve s e))
          = map msg_id (messages s)
            @ map idOf (if messages (step ve s e) = messages s then [] else minted e)"
    using zs(2) by (subst zs(1)) simp
  finally show ?case by simp
qed

lemma run_extends: "prefix (messages s) (messages (run ve s evs))"
proof (induction evs arbitrary: s)
  case Nil
  then show ?case by simp
next
  case (Cons e evs)
  from step_appends [of ve s e] have "prefix (messages s) (messages (step ve s e))"
    by (auto simp: prefix_def)
  also have "prefix (messages (step ve s e)) (messages (run ve s (e # evs)))"
    using Cons.IH [of "step ve s e"] by simp
  finally show ?case .
qed

text \<open>
  C9, as the code has it. The ids are minted from the clock: \<open>user-\<close>,
  \<open>assistant-\<close> or \<open>assistant-error-\<close> followed by the reading of \<open>Date.now()\<close>.
  From the first render on, the ids of the log are pairwise distinct exactly when no
  two messages of the same kind were minted at the same reading. In every execution the
  log only grows at its end: what the log holds at any moment is a prefix of what it
  holds later, so no message is edited or removed.
\<close>

theorem message_ids:
  assumes init: "initialState ve now0 = Some s0"
  shows "distinct (map msg_id (messages (run ve s0 evs))) = distinct (idReadings ve s0 evs)
       \<and> prefix (messages (run ve s0 evs)) (messages (run ve s0 (evs @ evs')))"
proof -
  have first: "map msg_id (messages s0) = [''init-assistant'']"
    using init by (auto simp: initialState_def split: list.splits)
  have inj: "inj_on idOf (set (idReadings ve s0 evs))"
    by (rule inj_onI) (rule idOf_inj)
  have "distinct (map msg_id (messages (run ve s0 evs)))
          = distinct (''init-assistant'' # map idOf (idReadings ve s0 evs))"
    by (simp add: run_ids first)
  also have "\<dots> = distinct (map idOf (idReadings ve s0 evs))"
  proof -
    have "''init-assistant'' \<notin> idOf ` set (idReadings ve s0 evs)"
    proof
      assume "''init-assistant'' \<in> idOf ` set (idReadings ve s0 evs)"
      then obtain p where "idOf p = ''init-assistant''" by (auto simp del: idOf.simps)
      with idOf_not_init show False by blast
    qed
    then show ?thesis by simp
  qed
  also have "\<dots> = distinct (idReadings ve s0 evs)"
    using inj by (simp add: distinct_map)
  finally have a: "distinct (map msg_id (messages (run ve s0 evs)))
                     = distinct (idReadings ve s0 evs)" .
  have b: "prefix (messages (run ve s0 evs)) (messages (run ve s0 (evs @ evs')))"
    by (simp add: run_append run_extends)
  from a b show ?thesis ..
qed

theorem message_ids_witness:
  "initialState sampleEngine 1000 = Some (sampleState \<lparr> input := initialInput \<rparr>)
   \<and> idReadings sampleEngine (sampleState \<lparr> input := initialInput \<rparr>)
        [SetInput ''neon city'', Send 5 6, Send 5 6, Settle Rejected 5 8]
       = [(UserMessage, 5), (FallbackMessage, 5)]
   \<and> distinct (map msg_id (messages (run sampleEngine (sampleState \<lparr> input := initialInput \<rparr>)
        [SetInput ''neon city'', Send 5 6, Send 5 6, Settle Rejected 5 8])))
   \<and> prefix (messages (run sampleEngine (sampleState \<lparr> input := initialInput \<rparr>)
                [SetInput ''neon city'', Send 5 6, Send 5 6, Settle Rejected 5 8]))
        (messages (run sampleEngine (sampleState \<lparr> input := initialInput \<rparr>)
                ([SetInput ''neon city'', Send 5 6, Send 5 6, Settle Rejected 5 8]
                 @ [SetInput ''more'', Send 9 10])))"
proof -
  let ?s0 = "sampleState \<lparr> input := initialInput \<rparr>"
  let ?evs = "[SetInput ''neon city'', Send 5 6, Send 5 6, Settle Rejected 5 8]"
  have rd: "idReadings sampleEngine ?s0 ?evs = [(UserMessage, 5), (FallbackMessage, 5)]"
    by (simp add: sampleState_def handleSend_def handleSend_settled_def Let_def trim_def
        isWhiteSpace_def resolveProfile_def profileOptions_def sampleEngine_def
        sampleCatalog_def)
  have dr: "distinct [(UserMessage, 5 :: int), (FallbackMessage, 5)]" by simp
  from message_ids [OF sample_initial, of ?evs "[SetInput ''more'', Send 9 10]"]
  have "distinct (map msg_id (messages (run sampleEngine ?s0 ?evs)))
        \<and> prefix (messages (run sampleEngine ?s0 ?evs))
            (messages (run sampleEngine ?s0 (?evs @ [SetInput ''more'', Send 9 10])))"
    unfolding rd using dr by blast
  with sample_initial rd show ?thesis by blast
qed

text \<open>
  The claim C9 as worded holds for every sequence of clock readings. When the clock
  returns the same reading for two submissions, their user messages are two messages
  with one id.
\<close>

theorem message_ids_counterexample:
  "initialState sampleEngine 1000 = Some (sampleState \<lparr> input := initialInput \<rparr>)
   \<and> map (\<lambda>m. (msg_id m, msg_text m))
        (messages (run sampleEngine (sampleState \<lparr> input := initialInput \<rparr>)
           [SetInput ''neon city'', Send 5 5, Settle Rejected 5 5,
            SetInput ''a quiet harbour'', Send 5 5]))
       = [(''init-assistant'', welcomeText), (''user-5'', ''neon city''),
          (''assistant-error-5'', apologyText), (''user-5'', ''a quiet harbour'')]
   \<and> \<not> distinct (map msg_id
          (messages (run sampleEngine (sampleState \<lparr> input := initialInput \<rparr>)
             [SetInput ''neon city'', Send 5 5, Settle Rejected 5 5,
              SetInput ''a quiet harbour'', Send 5 5])))"
proof -
  have d5: "Number_toString 5 = ''5''" by code_simp
  have log: "map (\<lambda>m. (msg_id m, msg_text m))
        (messages (run sampleEngine (sampleState \<lparr> input := initialInput \<rparr>)
           [SetInput ''neon city'', Send 5 5, Settle Rejected 5 5,
            SetInput ''a quiet harbour'', Send 5 5]))
       = [(''init-assistant'', welcomeText), (''user-5'', ''neon city''),
          (''assistant-error-5'', apologyText), (''user-5'', ''a quiet harbour'')]"
    by (simp add: sampleState_def handleSend_def handleSend_settled_def Let_def trim_def
        isWhiteSpace_def resolveProfile_def profileOptions_def sampleEngine_def
        sampleCatalog_def d5)
  have "map msg_id (messages (run sampleEngine (sampleState \<lparr> input := initialInput \<rparr>)
           [SetInput ''neon city'', Send 5 5, Settle Rejected 5 5,
            SetInput ''a quiet harbour'', Send 5 5]))
        = map fst [(''init-assistant'', welcomeText), (''user-5'', ''neon city''),
          (''assistant-error-5'', apologyText), (''user-5'', ''a quiet harbour'')]"
    unfolding log [symmetric] by (simp add: comp_def)
  then have nd: "\<not> distinct (map msg_id
          (messages (run sampleEngine (sampleState \<lparr> input := initialInput \<rparr>)
             [SetInput ''neon city'', Send 5 5, Settle Rejected 5 5,
              SetInput ''a quiet harbour'', Send 5 5])))"
    by simp
  from sample_initial log nd show ?thesis by blast
qed

end
